theory Spec2Isabelle
  imports Main
begin

section \<open>Strings\<close>

text \<open>
  A Python \<open>str\<close> is modelled as a \<^typ>\<open>string\<close>, one \<^typ>\<open>char\<close> per code point, which
  covers the code points below 256. A file is the text it holds; encoding and decoding
  (\<open>utf-8\<close>, \<open>errors="ignore"\<close>) are not modelled. The byte \<open>0x0A\<close> occurs in UTF-8 only as
  the encoding of the line feed, so counting lines of the bytes (\<open>line_counter\<close>) and of the
  text (\<open>newline="\n"\<close>) agree.
\<close>

abbreviation NL :: char where
  "NL \<equiv> CHR 0x0A"

abbreviation CR :: char where
  "CR \<equiv> CHR 0x0D"

abbreviation SP :: char where
  "SP \<equiv> CHR 0x20"

text \<open>\<open>str.isspace\<close> on one code point; the regular expression class \<open>\s\<close> and the separator
  of \<open>str.split()\<close> and \<open>str.strip()\<close> are the same set. Below 256 it holds of the code points
  9 to 13, 28 to 32, 133 and 160.\<close>

definition isspace :: "char \<Rightarrow> bool" where
  "isspace c = (of_char c \<in> {9, 10, 11, 12, 13, 28, 29, 30, 31, 32, 133, 160 :: nat})"

text \<open>\<open>s.strip(chars)\<close>, with the stripped characters given as a predicate.\<close>

definition strip_by :: "(char \<Rightarrow> bool) \<Rightarrow> string \<Rightarrow> string" where
  "strip_by P s = rev (dropWhile P (rev (dropWhile P s)))"

text \<open>\<open>s.strip()\<close>\<close>

definition strip :: "string \<Rightarrow> string" where
  "strip s = strip_by isspace s"

text \<open>\<open>sep.join(xs)\<close>\<close>

fun join :: "string \<Rightarrow> string list \<Rightarrow> string" where
  "join sep [] = []"
| "join sep [x] = x"
| "join sep (x # y # ys) = x @ sep @ join sep (y # ys)"

text \<open>\<open>s.replace(old, new)\<close> for one-character \<open>old\<close> and \<open>new\<close>.\<close>

definition replace_chr :: "char \<Rightarrow> char \<Rightarrow> string \<Rightarrow> string" where
  "replace_chr old new s = map (\<lambda>c. if c = old then new else c) s"

text \<open>\<open>s.split()\<close>: the maximal runs of non-whitespace characters. \<open>cur\<close> is the word being
  read.\<close>

fun split_acc :: "string \<Rightarrow> string \<Rightarrow> string list" where
  "split_acc cur [] = (if cur = [] then [] else [cur])"
| "split_acc cur (c # cs) =
     (if isspace c then (if cur = [] then split_acc [] cs else cur # split_acc [] cs)
      else split_acc (cur @ [c]) cs)"

definition str_split :: "string \<Rightarrow> string list" where
  "str_split s = split_acc [] s"

text \<open>\<open>s.split(sep)\<close> for a one-character separator: never empty, \<open>"".split("_") == [""]\<close>.\<close>

fun split_sep :: "char \<Rightarrow> string \<Rightarrow> string list" where
  "split_sep sep [] = [[]]"
| "split_sep sep (c # cs) =
     (if c = sep then [] # split_sep sep cs
      else (case split_sep sep cs of [] \<Rightarrow> [[c]] | w # ws \<Rightarrow> (c # w) # ws))"

text \<open>Iterating a file: the lines with their terminating line feed; a last line without one
  is a line too. \<open>cur\<close> is the line being read.\<close>

fun lines_acc :: "string \<Rightarrow> string \<Rightarrow> string list" where
  "lines_acc cur [] = (if cur = [] then [] else [cur])"
| "lines_acc cur (c # cs) =
     (if c = NL then (cur @ [c]) # lines_acc [] cs else lines_acc (cur @ [c]) cs)"

definition readlines :: "string \<Rightarrow> string list" where
  "readlines s = lines_acc [] s"

text \<open>\<open>str(n)\<close> of a natural number.\<close>

fun str_nat :: "nat \<Rightarrow> string" where
  "str_nat n =
     (if n < 10 then [''0123456789'' ! n]
      else str_nat (n div 10) @ [''0123456789'' ! (n mod 10)])"

declare str_nat.simps [simp del]

section \<open>Exceptions and the file system\<close>

text \<open>The exceptions the modelled code can raise. \<open>Raised msg\<close> is an exception of a
  caller-supplied function whose \<open>str\<close> is \<open>msg\<close>. \<open>FileNotFoundError\<close> is the \<open>OSError\<close> of a
  missing file; other operating system errors (permissions, a full disk) are not modelled.\<close>

datatype exn = FileNotFoundError | AssertionError | StopIteration | UnboundLocalError
  | Raised string

type_synonym path = string

type_synonym filesystem = "path \<Rightarrow> string option"

definition content :: "filesystem \<Rightarrow> path \<Rightarrow> string" where
  "content fs p = (case fs p of None \<Rightarrow> [] | Some c \<Rightarrow> c)"

text \<open>\<open>os.remove(p)\<close>\<close>

definition os_remove :: "filesystem \<Rightarrow> path \<Rightarrow> exn + filesystem" where
  "os_remove fs p = (case fs p of None \<Rightarrow> Inl FileNotFoundError | Some c \<Rightarrow> Inr (fs(p := None)))"

text \<open>\<open>open(p, "a").write(s)\<close>: the file is created when it is missing.\<close>

definition append_file :: "filesystem \<Rightarrow> path \<Rightarrow> string \<Rightarrow> filesystem" where
  "append_file fs p s = fs(p \<mapsto> content fs p @ s)"

subsection \<open>\<open>Utils/file_process.py\<close>\<close>

definition line_counter :: "filesystem \<Rightarrow> path \<Rightarrow> exn + nat" where
  "line_counter fs a_file =
     (case fs a_file of None \<Rightarrow> Inl FileNotFoundError | Some c \<Rightarrow> Inr (length (readlines c)))"

definition file_to_list :: "filesystem \<Rightarrow> path \<Rightarrow> exn + string list" where
  "file_to_list fs a_file =
     (case fs a_file of None \<Rightarrow> Inl FileNotFoundError | Some c \<Rightarrow> Inr (map strip (readlines c)))"

text \<open>\<open>list_to_file\<close>: the elements are taken after \<open>str(e)\<close>. The file is written before the
  assertion is checked, so the result holds the new file system also when it fails.\<close>

definition list_to_file :: "filesystem \<Rightarrow> string list \<Rightarrow> path \<Rightarrow> bool \<Rightarrow> filesystem \<times> exn option" where
  "list_to_file fs lst a_file validate =
     (let f = foldl (\<lambda>f e. f @ (replace_chr CR SP (replace_chr NL SP e) @ [NL])) [] lst;
          fs' = fs(a_file \<mapsto> f)
      in if validate \<and> line_counter fs' a_file \<noteq> Inr (length lst)
         then (fs', Some AssertionError) else (fs', None))"

text \<open>\<open>itertools.zip_longest(*[it] * n)\<close>: tuples of \<open>n\<close> successive items of the one iterator,
  the last tuple padded with \<open>None\<close>; no tuple at all when \<open>n\<close> is 0.\<close>

function zip_longest :: "nat \<Rightarrow> 'a list \<Rightarrow> 'a option list list" where
  "zip_longest n xs =
     (if n = 0 \<or> xs = [] then []
      else (map Some (take n xs) @ replicate (n - length xs) None) # zip_longest n (drop n xs))"
  by pat_completeness auto
termination
  by (relation "measure (\<lambda>(n, xs). length xs)") auto

declare zip_longest.simps [simp del]

text \<open>\<open>list(filter(lambda x: x is not None, t))\<close>\<close>

definition not_None :: "'a option list \<Rightarrow> 'a list" where
  "not_None t = map the (filter (\<lambda>x. x \<noteq> None) t)"

text \<open>The per-line function: it returns a pair of strings or raises.\<close>

type_synonym transform = "string \<Rightarrow> string \<Rightarrow> exn + string \<times> string"

text \<open>The inner loop over \<open>map(function_name, next_n_lines, next_n_line_ids)\<close>: \<open>map\<close> stops
  with the shorter list, and an exception of \<open>function_name\<close> leaves the loop.\<close>

fun map_transform :: "transform \<Rightarrow> (string \<times> string) list \<Rightarrow> exn + (string \<times> string) list" where
  "map_transform function_name [] = Inr []"
| "map_transform function_name ((line, line_id) # rest) =
     (case function_name line line_id of
        Inl e \<Rightarrow> Inl e
      | Inr r \<Rightarrow> (case map_transform function_name rest of
                   Inl e \<Rightarrow> Inl e
                 | Inr rs \<Rightarrow> Inr (r # rs)))"

text \<open>\<open>input_file_ids[start_index:]\<close>\<close>

definition slice_from :: "int \<Rightarrow> 'a list \<Rightarrow> 'a list" where
  "slice_from i xs = (if i < 0 then drop (nat (int (length xs) + i)) xs else drop (nat i) xs)"

text \<open>The \<open>try\<close> block that removes the old output: the first \<open>os.remove\<close> that raises ends
  the block.\<close>

definition remove_outputs :: "filesystem \<Rightarrow> path \<Rightarrow> path option \<Rightarrow> int option \<Rightarrow> filesystem" where
  "remove_outputs fs output_file output_index_file start_index =
     (case start_index of
        Some i \<Rightarrow> fs
      | None \<Rightarrow>
          (case os_remove fs output_file of
             Inl e \<Rightarrow> fs
           | Inr fs1 \<Rightarrow>
               (case output_index_file of
                  None \<Rightarrow> fs1
                | Some p \<Rightarrow> (case os_remove fs1 p of Inl e \<Rightarrow> fs1 | Inr fs2 \<Rightarrow> fs2))))"

text \<open>\<open>process_large_file\<close> up to the head of its \<open>for\<close> loop: the removal, the assertion,
  opening the input and skipping to \<open>start_index\<close>. The result is the file system at that point
  and either the exception raised or the sequence of chunk pairs the loop will run through.
  The input is read as it is when opened, which is what the code reads when \<open>input_file\<close> is
  neither of the two output files.\<close>

definition start_run ::
  "filesystem \<Rightarrow> path \<Rightarrow> path \<Rightarrow> string list \<Rightarrow> path option \<Rightarrow> int \<Rightarrow> int option
   \<Rightarrow> filesystem \<times> (exn + (string option list \<times> string option list) list)" where
  "start_run fs input_file output_file input_file_ids output_index_file chunk_size start_index =
     (let fs1 = remove_outputs fs output_file output_index_file start_index
      in case line_counter fs1 input_file of
           Inl e \<Rightarrow> (fs1, Inl e)
         | Inr n \<Rightarrow>
             if n \<noteq> length input_file_ids then (fs1, Inl AssertionError)
             else
               (let f_in = readlines (content fs1 input_file)
                in case start_index of
                     None \<Rightarrow>
                       (fs1, Inr (zip (zip_longest (nat chunk_size) f_in)
                                      (zip_longest (nat chunk_size) input_file_ids)))
                   | Some i \<Rightarrow>
                       if length f_in < nat i then (fs1, Inl StopIteration)
                       else
                         (fs1, Inr (zip (zip_longest (nat chunk_size) (drop (nat i) f_in))
                                        (zip_longest (nat chunk_size)
                                           (slice_from i input_file_ids))))))"

text \<open>The body of the \<open>for\<close> loop, once per chunk pair. The progress messages (a time stamp
  and the running line number) are not modelled.\<close>

fun process_chunks ::
  "transform \<Rightarrow> path \<Rightarrow> path option \<Rightarrow> (string option list \<times> string option list) list
   \<Rightarrow> filesystem \<Rightarrow> filesystem \<times> exn option" where
  "process_chunks function_name output_file output_index_file [] fs = (fs, None)"
| "process_chunks function_name output_file output_index_file ((lines, ids) # rest) fs =
     (let next_n_lines = not_None lines;
          next_n_line_ids = not_None ids
      in case map_transform function_name (zip next_n_lines next_n_line_ids) of
           Inl e \<Rightarrow> (fs, Some e)
         | Inr outs \<Rightarrow>
             (let output_lines = join [NL] (map fst outs) @ [NL];
                  output_line_ids = join [NL] (map snd outs) @ [NL];
                  fs1 = append_file fs output_file output_lines;
                  fs2 = (case output_index_file of
                           None \<Rightarrow> fs1
                         | Some p \<Rightarrow> append_file fs1 p output_line_ids)
              in process_chunks function_name output_file output_index_file rest fs2))"

definition process_large_file ::
  "filesystem \<Rightarrow> path \<Rightarrow> path \<Rightarrow> string list \<Rightarrow> path option \<Rightarrow> transform \<Rightarrow> int \<Rightarrow> int option
   \<Rightarrow> filesystem \<times> exn option" where
  "process_large_file fs input_file output_file input_file_ids output_index_file function_name
     chunk_size start_index =
     (case start_run fs input_file output_file input_file_ids output_index_file chunk_size
             start_index of
        (fs1, Inl e) \<Rightarrow> (fs1, Some e)
      | (fs1, Inr work) \<Rightarrow> process_chunks function_name output_file output_index_file work fs1)"


subsection \<open>\<open>Utils/text_cleaning.py\<close>\<close>

text \<open>
  The regular expression engine and the Unicode tables are outside the repository. What the
  cleaner takes from them is a parameter: the classes \<open>\d\<close> and \<open>\w\<close>, and \<open>str.lower\<close>
  (a function of the whole string, since lower-casing may depend on the neighbours of a
  character). The class \<open>\s\<close> is \<^const>\<open>isspace\<close>.
\<close>

record regex_env =
  rx_digit :: "char \<Rightarrow> bool"
  rx_word :: "char \<Rightarrow> bool"
  str_lower :: "string \<Rightarrow> string"

text \<open>The fields of a \<open>TextCleaner\<close> object.\<close>

record text_cleaner =
  to_lower :: bool
  remove_num :: bool
  remove_punc :: bool
  remove_extra_punc :: bool
  remove_stop :: bool
  remove_single :: bool
  language :: string
  stops :: "string set"

text \<open>\<open>TextCleaner.__init__\<close>; \<open>nltk_stopwords\<close> stands for \<open>stopwords.words\<close> of NLTK.\<close>

definition TextCleaner_init ::
  "(string \<Rightarrow> string list) \<Rightarrow> bool \<Rightarrow> bool \<Rightarrow> bool \<Rightarrow> bool \<Rightarrow> bool \<Rightarrow> bool
   \<Rightarrow> string list option \<Rightarrow> string \<Rightarrow> text_cleaner" where
  "TextCleaner_init nltk_stopwords to_lower' remove_num' remove_punc' remove_extra_punc'
     remove_stop' remove_single' custom_stop language' =
     \<lparr>to_lower = to_lower', remove_num = remove_num', remove_punc = remove_punc',
      remove_extra_punc = remove_extra_punc', remove_stop = remove_stop',
      remove_single = remove_single', language = language',
      stops = (if remove_stop'
               then (case custom_stop of
                       Some ws \<Rightarrow> set ws
                     | None \<Rightarrow> set (nltk_stopwords language'))
               else {})\<rparr>"

text \<open>\<open>re.sub(r'\d+', '', text)\<close>\<close>

definition remove_numbers :: "regex_env \<Rightarrow> string \<Rightarrow> string" where
  "remove_numbers rx text = filter (\<lambda>c. \<not> rx_digit rx c) text"

text \<open>\<open>re.sub(r'[^\w\s]', ' ', text)\<close>\<close>

definition remove_punctuation :: "regex_env \<Rightarrow> string \<Rightarrow> string" where
  "remove_punctuation rx text = map (\<lambda>c. if \<not> rx_word rx c \<and> \<not> isspace c then SP else c) text"

text \<open>\<open>re.sub(r'([^\w\s])\1+', r'\1', text)\<close>: a run of one punctuation character becomes a
  single one.\<close>

function remove_extra_punctuation :: "regex_env \<Rightarrow> string \<Rightarrow> string" where
  "remove_extra_punctuation rx [] = []"
| "remove_extra_punctuation rx (c # cs) =
     (if \<not> rx_word rx c \<and> \<not> isspace c
      then c # remove_extra_punctuation rx (dropWhile (\<lambda>d. d = c) cs)
      else c # remove_extra_punctuation rx cs)"
  by pat_completeness auto
termination
  by (relation "measure (\<lambda>(rx, s). length s)") (auto simp: length_dropWhile_le le_imp_less_Suc)

text \<open>\<open>re.sub(r'\s+', ' ', text)\<close>: every maximal run of whitespace becomes one space.\<close>

function sub_spaces :: "string \<Rightarrow> string" where
  "sub_spaces [] = []"
| "sub_spaces (c # cs) =
     (if isspace c then SP # sub_spaces (dropWhile isspace cs) else c # sub_spaces cs)"
  by pat_completeness auto
termination
  by (relation "measure length") (auto simp: length_dropWhile_le le_imp_less_Suc)

definition remove_extra_whitespace :: "string \<Rightarrow> string" where
  "remove_extra_whitespace text = strip (sub_spaces text)"

text \<open>The last of the five extra stop words is \<open>'s\<close>, an apostrophe (code point 39) and an
  \<open>s\<close>.\<close>

definition remove_stopwords :: "text_cleaner \<Rightarrow> string \<Rightarrow> string" where
  "remove_stopwords self text =
     join [SP]
       (filter (\<lambda>word. word \<notin> stops self \<union> {''-lrb-'', ''-rrb-'', ''-lsb-'', ''-rsb-'', [CHR 0x27, CHR ''s'']})
          (str_split text))"

definition remove_single_tokens :: "string \<Rightarrow> string" where
  "remove_single_tokens text = join [SP] (filter (\<lambda>word. 1 < length word) (str_split text))"

definition clean :: "regex_env \<Rightarrow> text_cleaner \<Rightarrow> string \<Rightarrow> string" where
  "clean rx self text =
     (let text = (if to_lower self then str_lower rx text else text);
          text = (if remove_num self then remove_numbers rx text else text);
          text = (if remove_extra_punc self then remove_extra_punctuation rx text else text);
          text = (if remove_punc self then remove_punctuation rx text else text);
          text = remove_extra_whitespace text;
          text = (if remove_stop self then remove_stopwords self text else text);
          text = (if remove_single self then remove_single_tokens text else text)
      in text)"

subsection \<open>\<open>clean.py\<close>\<close>

text \<open>\<open>clean_file\<close>, with \<open>a_text_cleaner\<close> the object that \<open>TextCleaner(**kwargs)\<close> builds.
  An exception of \<open>line_counter\<close> leaves the function before anything is written.\<close>

definition clean_file ::
  "filesystem \<Rightarrow> regex_env \<Rightarrow> text_cleaner \<Rightarrow> path \<Rightarrow> path \<Rightarrow> filesystem \<times> exn option" where
  "clean_file fs rx a_text_cleaner input_path output_path =
     (case line_counter fs input_path of
        Inl e \<Rightarrow> (fs, Some e)
      | Inr total_lines \<Rightarrow>
          process_large_file fs input_path output_path (map str_nat [0..<total_lines]) None
            (\<lambda>line line_id. Inr (clean rx a_text_cleaner line, line_id)) 20000 None)"

subsection \<open>\<open>parse.py\<close>\<close>

text \<open>
  \<open>parse_line\<close>, the function nested in \<open>parse_document\<close>. \<open>sentence_split\<close> stands for
  \<open>parser.sentence_split(line, **kwargs)\<close> of the spaCy wrapper: it returns the numbered
  sentences or raises an exception, given by its message. The first component of the result
  is what the call prints. After the \<open>except\<close> branch the local \<open>sent\<close> has no value, and
  the next statement reads it.
\<close>

definition parse_line ::
  "(string \<Rightarrow> string + (nat \<times> string) list) \<Rightarrow> string \<Rightarrow> string
   \<Rightarrow> string list \<times> (exn + string \<times> string)" where
  "parse_line sentence_split line line_id =
     (case sentence_split line of
        Inl msg \<Rightarrow> ([msg, ''Exception in line: '' @ line_id], Inl UnboundLocalError)
      | Inr sent \<Rightarrow>
          (let sentences = map (\<lambda>item. strip_by (\<lambda>c. c = NL) (snd item))
                             (filter (\<lambda>item. strip (snd item) \<noteq> []) sent);
               sentence_ids = map (\<lambda>item. line_id @ ''_'' @ str_nat (fst item)) sent;
               processed_sentences = join [NL] sentences;
               processed_sentence_ids = join [NL] sentence_ids
           in ([], Inr (processed_sentences, processed_sentence_ids))))"

text \<open>\<open>global_options.PARSE_CHUNK_SIZE\<close>\<close>

definition PARSE_CHUNK_SIZE :: int where
  "PARSE_CHUNK_SIZE = 1000"

text \<open>\<open>parse_line\<close> as \<open>process_large_file\<close> calls it: the value returned or the exception.\<close>

definition parse_line_result ::
  "(string \<Rightarrow> string + (nat \<times> string) list) \<Rightarrow> transform" where
  "parse_line_result sentence_split line line_id = snd (parse_line sentence_split line line_id)"

definition parse_document ::
  "filesystem \<Rightarrow> (string \<Rightarrow> string + (nat \<times> string) list) \<Rightarrow> path \<Rightarrow> string list \<Rightarrow> path
   \<Rightarrow> path option \<Rightarrow> filesystem \<times> exn option" where
  "parse_document fs sentence_split input_path input_id output_path output_id =
     process_large_file fs input_path output_path input_id output_id
       (parse_line_result sentence_split) PARSE_CHUNK_SIZE None"

subsection \<open>\<open>score.py\<close>\<close>

text \<open>\<open>id_doc_dict[id] += v\<close> on a \<open>defaultdict(lambda: "")\<close>. A dictionary keeps its keys in
  the order of their first insertion, so it is an association list.\<close>

fun dict_add :: "(string \<times> string) list \<Rightarrow> string \<Rightarrow> string \<Rightarrow> (string \<times> string) list" where
  "dict_add [] k v = [(k, [] @ v)]"
| "dict_add ((k', x) # d) k v =
     (if k' = k then (k', x @ v) # d else (k', x) # dict_add d k v)"

text \<open>\<open>construct_doc_level_corpus\<close>. The two pickle files it writes hold the two lists
  it returns; writing them is not modelled.\<close>

definition construct_doc_level_corpus ::
  "filesystem \<Rightarrow> path \<Rightarrow> path \<Rightarrow> exn + string list \<times> string list \<times> nat" where
  "construct_doc_level_corpus fs sent_corpus_file sent_id_file =
     (case file_to_list fs sent_corpus_file of
        Inl e \<Rightarrow> Inl e
      | Inr sent_corpus \<Rightarrow>
          (case file_to_list fs sent_id_file of
             Inl e \<Rightarrow> Inl e
           | Inr sent_IDs \<Rightarrow>
               if length sent_IDs \<noteq> length sent_corpus then Inl AssertionError
               else
                 (let doc_ids = map (\<lambda>x. hd (split_sep (CHR ''_'') x)) sent_IDs;
                      id_doc_dict = foldl (\<lambda>d (id, s). dict_add d id ([SP] @ s)) []
                                      (zip doc_ids sent_corpus);
                      corpus = map snd id_doc_dict;
                      doc_ids = map fst id_doc_dict
                  in Inr (corpus, doc_ids, length corpus))))"

text \<open>\<open>df_dict[word] += 1\<close> on a \<open>defaultdict(int)\<close>\<close>

definition df_incr :: "(string \<Rightarrow> nat option) \<Rightarrow> string \<Rightarrow> (string \<Rightarrow> nat option)" where
  "df_incr df_dict word = df_dict(word \<mapsto> (case df_dict word of None \<Rightarrow> 0 | Some n \<Rightarrow> n) + 1)"

text \<open>\<open>calculate_df\<close>. The words of \<open>set(doc_splited)\<close> are visited in the order of
  \<^term>\<open>remdups\<close>; each visit changes the counter of its own word only, so the order Python
  picks gives the same table. Writing the pickle file is not modelled.\<close>

definition calculate_df :: "string list \<Rightarrow> (string \<Rightarrow> nat option)" where
  "calculate_df corpus =
     foldl (\<lambda>df_dict doc. foldl df_incr df_dict (remdups (str_split doc))) Map.empty corpus"

text \<open>
  Modelled from the spec: \<open>Utils/dictionary.py\<close>, whose \<open>score_tf\<close> the function \<open>score_tf\<close> of
  \<open>score.py\<close> calls, is not among the sources. The spec: for each document and each category,
  sum the raw occurrence counts of that category's words in the document, and emit one score
  record (the document identifier with one value per category) per document. The words of a
  document are its whitespace-separated tokens, as in \<open>calculate_df\<close>.
\<close>

definition score_tf ::
  "string list \<Rightarrow> string list \<Rightarrow> (string \<times> string list) list
   \<Rightarrow> (string \<times> (string \<times> nat) list) list" where
  "score_tf documents document_ids expanded_words =
     map (\<lambda>(doc, doc_id).
            (doc_id,
             map (\<lambda>(category, ws).
                    (category, sum_list (map (\<lambda>w. count_list (str_split doc) w) ws)))
               expanded_words))
       (zip documents document_ids)"

section \<open>Notions used in the statements\<close>



text \<open>The per-line function returns, for every line of \<open>ls\<close> with every identifier of \<open>ids\<close>,
  two strings with the same number of line feeds, or raises.\<close>

definition aligned_on :: "transform \<Rightarrow> string list \<Rightarrow> string list \<Rightarrow> bool" where
  "aligned_on function_name ls ids =
     list_all (\<lambda>l. list_all (\<lambda>i. case function_name l i of
                                     Inl e \<Rightarrow> True
                                   | Inr r \<Rightarrow> count_list (fst r) NL = count_list (snd r) NL) ids) ls"

text \<open>The elements of a list in the order of their first occurrence.\<close>

definition first_seen :: "'a list \<Rightarrow> 'a list" where
  "first_seen xs = rev (remdups (rev xs))"

text \<open>No two neighbouring characters of the string are both whitespace.\<close>

fun no_double_space :: "string \<Rightarrow> bool" where
  "no_double_space (c # d # cs) = (\<not> (isspace c \<and> isspace d) \<and> no_double_space (d # cs))"
| "no_double_space cs = True"

text \<open>The string neither begins nor ends with whitespace, and no two neighbouring characters
  of it are both whitespace.\<close>

definition tidy :: "string \<Rightarrow> bool" where
  "tidy s = ((s = [] \<or> (\<not> isspace (hd s) \<and> \<not> isspace (last s))) \<and> no_double_space s)"

text \<open>A word of \<open>s.split()\<close>: not empty, and without whitespace.\<close>

definition word_like :: "string \<Rightarrow> bool" where
  "word_like w = (w \<noteq> [] \<and> (\<forall>c\<in>set w. \<not> isspace c))"

subsection \<open>Concrete inputs\<close>

text \<open>A corpus of three lines, with output files left over from an earlier run.\<close>

definition example_fs :: filesystem where
  "example_fs = [''docs.txt'' \<mapsto> ''first\<newline>second\<newline>third\<newline>'', ''out.txt'' \<mapsto> ''old\<newline>'',
                 ''out_ids.txt'' \<mapsto> ''old_0\<newline>'']"

text \<open>Per-line functions: one output line for each input line, and two for each.\<close>

definition keep_line :: transform where
  "keep_line line line_id = Inr (strip line, line_id)"

definition two_lines :: transform where
  "two_lines line line_id =
     Inr (strip line @ [NL] @ strip line, line_id @ ''_0'' @ [NL] @ line_id @ ''_1'')"

text \<open>Sentence splitters: one that returns the text of the line and, as a second sentence,
  the line feed that ends it; and one that raises on the line \<open>second\<close>.\<close>

definition blank_tail_split :: "string \<Rightarrow> string + (nat \<times> string) list" where
  "blank_tail_split line = Inr [(0, strip line), (1, [NL])]"

definition failing_split :: "string \<Rightarrow> string + (nat \<times> string) list" where
  "failing_split line = (if strip line = ''second'' then Inl ''boom'' else Inr [(0, strip line)])"

text \<open>The classes of the regular expression engine on ASCII text, and the cleaner of the
  first \<open>clean_file\<close> call of \<open>main.py\<close> (\<open>to_lower=True, remove_punc=True\<close>).\<close>

definition ascii_regex :: regex_env where
  "ascii_regex =
     \<lparr>rx_digit = (\<lambda>c. c \<in> set ''0123456789''),
      rx_word = (\<lambda>c. c \<in> set ''0123456789abcdefghijklmnopqrstuvwxyzABCDEFGHIJKLMNOPQRSTUVWXYZ_''),
      str_lower = map (\<lambda>c. if c \<in> set ''ABCDEFGHIJKLMNOPQRSTUVWXYZ''
                             then char_of (of_char c + (32 :: nat)) else c)\<rparr>"

definition first_pass_cleaner :: text_cleaner where
  "first_pass_cleaner =
     TextCleaner_init (\<lambda>language. []) True False True False False False None ''english''"

text \<open>The sentence corpus and the sentence identifier file of the example of the
  specification.\<close>

definition sentence_fs :: filesystem where
  "sentence_fs = [''sents.txt'' \<mapsto> ''a\<newline>b\<newline>c\<newline>'', ''sent_ids.txt'' \<mapsto> ''1_0\<newline>1_1\<newline>2_0\<newline>'']"

text \<open>\<open>TextCleaner()\<close>, with every option off, and the cleaner of the last \<open>clean_file\<close>
  call of \<open>main.py\<close> with a stop word list of two words.\<close>

definition no_op_cleaner :: text_cleaner where
  "no_op_cleaner =
     TextCleaner_init (\<lambda>language. []) False False False False False False None ''english''"

definition final_pass_cleaner :: text_cleaner where
  "final_pass_cleaner =
     TextCleaner_init (\<lambda>language. [''the'', ''of'']) True True True False True True None ''english''"

section \<open>Properties\<close>

subsection \<open>Lines, joins and chunks\<close>

lemma foldl_append_concat: "foldl (\<lambda>f e. f @ g e) acc lst = acc @ concat (map g lst)"
  by (induction lst arbitrary: acc) auto

lemma lines_acc_line: "NL \<notin> set e \<Longrightarrow> lines_acc cur (e @ NL # rest) = (cur @ e @ [NL]) # lines_acc [] rest"
  by (induction e arbitrary: cur) auto

lemma readlines_terminated:
  "\<forall>e\<in>set es. NL \<notin> set e \<Longrightarrow> readlines (concat (map (\<lambda>e. e @ [NL]) es)) = map (\<lambda>e. e @ [NL]) es"
  unfolding readlines_def
  by (induction es) (auto simp: lines_acc_line)

lemma length_lines_acc:
  "length (lines_acc cur s) =
     count_list s NL + (if s = [] then (if cur = [] then 0 else 1) else if last s = NL then 0 else 1)"
  by (induction s arbitrary: cur) auto

lemma length_readlines_terminated:
  "s = [] \<or> last s = NL \<Longrightarrow> length (readlines s) = count_list s NL"
  by (auto simp: readlines_def length_lines_acc)

lemma replace_chr_twice:
  "replace_chr CR SP (replace_chr NL SP e) = map (\<lambda>c. if c = NL \<or> c = CR then SP else c) e"
  by (auto simp: replace_chr_def)

lemma count_list_append: "count_list (xs @ ys) a = count_list xs a + count_list ys a"
  by (induction xs) auto

lemma count_join:
  "count_list (join [NL] xs) NL = sum_list (map (\<lambda>x. count_list x NL) xs) + (length xs - 1)"
  by (induction xs rule: induct_list012) (auto simp: count_list_append)


lemma not_None_chunk: "not_None (map Some xs @ replicate k None) = xs"
  by (induction xs) (auto simp: not_None_def)





subsection \<open>\<open>list_to_file\<close>\<close>

lemma written_file_lines:
  "readlines (foldl (\<lambda>f e. f @ (replace_chr CR SP (replace_chr NL SP e) @ [NL])) [] lst) =
     map (\<lambda>e. map (\<lambda>c. if c = NL \<or> c = CR then SP else c) e @ [NL]) lst"
proof -
  let ?g = "\<lambda>e. map (\<lambda>c. if c = NL \<or> c = CR then SP else c) e"
  have "foldl (\<lambda>f e. f @ (replace_chr CR SP (replace_chr NL SP e) @ [NL])) [] lst =
        concat (map (\<lambda>e. e @ [NL]) (map ?g lst))"
    by (simp add: foldl_append_concat comp_def replace_chr_twice)
  moreover have "\<forall>e\<in>set (map ?g lst). NL \<notin> set e"
    by auto
  then have "readlines (concat (map (\<lambda>e. e @ [NL]) (map ?g lst))) = map (\<lambda>e. e @ [NL]) (map ?g lst)"
    by (rule readlines_terminated)
  ultimately show ?thesis
    by (simp add: comp_def)
qed

text \<open>
  Claim C8. For every list, \<open>list_to_file\<close> with \<open>validate=True\<close> writes exactly one line per
  element: the line feeds and carriage returns inside an element are written as spaces, the
  file read back has as many lines as the list has elements, each line the element so changed
  and a line feed, and the closing assertion does not fail.
\<close>

theorem list_to_file_one_line_per_element:
  "snd (list_to_file fs lst a_file True) = None \<and>
   line_counter (fst (list_to_file fs lst a_file True)) a_file = Inr (length lst) \<and>
   readlines (content (fst (list_to_file fs lst a_file True)) a_file) =
     map (\<lambda>e. map (\<lambda>c. if c = NL \<or> c = CR then SP else c) e @ [NL]) lst"
  by (simp add: list_to_file_def Let_def line_counter_def content_def written_file_lines)

theorem list_to_file_one_line_per_element_witness:
  "snd (list_to_file Map.empty [''a\<newline>b'', [CHR ''c'', CR], ''''] ''f'' True) = None \<and>
   line_counter (fst (list_to_file Map.empty [''a\<newline>b'', [CHR ''c'', CR], ''''] ''f'' True)) ''f''
     = Inr 3 \<and>
   readlines (content (fst (list_to_file Map.empty [''a\<newline>b'', [CHR ''c'', CR], ''''] ''f'' True)) ''f'')
     = [''a b\<newline>'', ''c \<newline>'', ''\<newline>'']"
  using list_to_file_one_line_per_element [of Map.empty "[''a\<newline>b'', [CHR ''c'', CR], '''']" "''f''"]
  by simp

subsection \<open>The chunk loop of \<open>process_large_file\<close>\<close>

lemma content_append_file [simp]:
  "content (append_file fs p s) q = (if q = p then content fs p @ s else content fs q)"
  by (simp add: append_file_def content_def)

lemma append_file_other [simp]: "q \<noteq> p \<Longrightarrow> append_file fs p s q = fs q"
  by (simp add: append_file_def)

lemma chunk_members: "c \<in> set (zip_longest n xs) \<Longrightarrow> set (not_None c) \<subseteq> set xs"
proof (induction n xs rule: zip_longest.induct)
  case (1 n xs)
  show ?case
  proof (cases "n = 0 \<or> xs = []")
    case True
    with "1.prems" show ?thesis by (simp add: zip_longest.simps [of n xs])
  next
    case False
    with "1.prems" have "c = map Some (take n xs) @ replicate (n - length xs) None
        \<or> c \<in> set (zip_longest n (drop n xs))"
      by (simp add: zip_longest.simps [of n xs])
    then show ?thesis
    proof
      assume "c = map Some (take n xs) @ replicate (n - length xs) None"
      then show ?thesis by (auto simp: not_None_chunk dest: in_set_takeD)
    next
      assume "c \<in> set (zip_longest n (drop n xs))"
      with "1.IH" False have "set (not_None c) \<subseteq> set (drop n xs)" by simp
      then show ?thesis by (auto dest: in_set_dropD)
    qed
  qed
qed

lemma map_transform_results:
  "map_transform f items = Inr outs \<Longrightarrow> r \<in> set outs \<Longrightarrow>
     \<exists>l i. (l, i) \<in> set items \<and> f l i = Inr r"
proof (induction items arbitrary: outs)
  case Nil
  then show ?case by simp
next
  case (Cons a items)
  obtain l i where a: "a = (l, i)" by (cases a)
  from Cons.prems(1) a obtain r0 rs where
    r0: "f l i = Inr r0" and rs: "map_transform f items = Inr rs" and outs: "outs = r0 # rs"
    by (auto split: sum.splits)
  from Cons.prems(2) outs have "r = r0 \<or> r \<in> set rs" by auto
  then show ?case
  proof
    assume "r = r0"
    with r0 a show ?thesis by auto
  next
    assume "r \<in> set rs"
    from Cons.IH [OF rs this] show ?thesis by auto
  qed
qed

lemma count_join_aligned:
  "\<forall>r\<in>set outs. count_list (fst r) NL = count_list (snd r) NL \<Longrightarrow>
     count_list (join [NL] (map fst outs)) NL = count_list (join [NL] (map snd outs)) NL"
proof -
  assume "\<forall>r\<in>set outs. count_list (fst r) NL = count_list (snd r) NL"
  then have "map (\<lambda>x. count_list x NL) (map fst outs) = map (\<lambda>x. count_list x NL) (map snd outs)"
    by simp
  then show ?thesis by (simp only: count_join length_map)
qed

lemma process_chunks_aligned:
  assumes "p \<noteq> out"
    and "\<forall>c\<in>set work. \<forall>l\<in>set (not_None (fst c)). \<forall>i\<in>set (not_None (snd c)). \<forall>r.
           f l i = Inr r \<longrightarrow> count_list (fst r) NL = count_list (snd r) NL"
  shows "\<exists>a b. content (fst (process_chunks f out (Some p) work fs)) out = content fs out @ a \<and>
               content (fst (process_chunks f out (Some p) work fs)) p = content fs p @ b \<and>
               (a = [] \<or> last a = NL) \<and> (b = [] \<or> last b = NL) \<and>
               count_list a NL = count_list b NL"
  using assms(2)
proof (induction work arbitrary: fs)
  case Nil
  then show ?case by simp
next
  case (Cons c work)
  obtain ls "is" where c: "c = (ls, is)" by (cases c)
  show ?case
  proof (cases "map_transform f (zip (not_None ls) (not_None is))")
    case (Inl e)
    then show ?thesis using c by simp
  next
    case (Inr outs)
    let ?ol = "join [NL] (map fst outs) @ [NL]"
    let ?oi = "join [NL] (map snd outs) @ [NL]"
    let ?fs2 = "append_file (append_file fs out ?ol) p ?oi"
    have step: "process_chunks f out (Some p) (c # work) fs = process_chunks f out (Some p) work ?fs2"
      using c Inr by (simp add: Let_def)
    have al: "\<forall>r\<in>set outs. count_list (fst r) NL = count_list (snd r) NL"
    proof
      fix r assume "r \<in> set outs"
      from map_transform_results [OF Inr this] obtain l i where
        li: "(l, i) \<in> set (zip (not_None ls) (not_None is))" and r: "f l i = Inr r" by blast
      from li have "l \<in> set (not_None ls)" "i \<in> set (not_None is)"
        by (auto dest: set_zip_leftD set_zip_rightD)
      with Cons.prems c r show "count_list (fst r) NL = count_list (snd r) NL" by auto
    qed
    from Cons.prems have "\<forall>c\<in>set work. \<forall>l\<in>set (not_None (fst c)). \<forall>i\<in>set (not_None (snd c)). \<forall>r.
           f l i = Inr r \<longrightarrow> count_list (fst r) NL = count_list (snd r) NL" by simp
    from Cons.IH [OF this, of ?fs2] obtain a b where
      a: "content (fst (process_chunks f out (Some p) work ?fs2)) out = content ?fs2 out @ a" and
      b: "content (fst (process_chunks f out (Some p) work ?fs2)) p = content ?fs2 p @ b" and
      la: "a = [] \<or> last a = NL" and lb: "b = [] \<or> last b = NL" and
      ab: "count_list a NL = count_list b NL" by blast
    have "content (fst (process_chunks f out (Some p) (c # work) fs)) out = content fs out @ (?ol @ a)"
      using a step assms(1) by simp
    moreover have "content (fst (process_chunks f out (Some p) (c # work) fs)) p = content fs p @ (?oi @ b)"
      using b step assms(1) by simp
    moreover have "?ol @ a = [] \<or> last (?ol @ a) = NL" using la by auto
    moreover have "?oi @ b = [] \<or> last (?oi @ b) = NL" using lb by auto
    moreover have "count_list (?ol @ a) NL = count_list (?oi @ b) NL"
      using ab count_join_aligned [OF al] by (simp add: count_list_append)
    ultimately show ?thesis by blast
  qed
qed

lemma process_chunks_frame:
  "q \<noteq> out \<Longrightarrow> Some q \<noteq> idx \<Longrightarrow> fst (process_chunks f out idx work fs) q = fs q"
  by (induction work arbitrary: fs) (auto simp: Let_def split: sum.splits option.splits)

lemma remove_outputs_frame:
  "q \<noteq> out \<Longrightarrow> Some q \<noteq> idx \<Longrightarrow> remove_outputs fs out idx start q = fs q"
  by (auto simp: remove_outputs_def os_remove_def split: option.splits)

lemma fst_start_run:
  "fst (start_run fs inp out ids idx chunk start) = remove_outputs fs out idx start"
  by (auto simp: start_run_def Let_def split: sum.splits option.splits)


lemma zip_longest_Nil [simp]: "zip_longest n [] = []"
  by (simp add: zip_longest.simps)




lemma set_slice_from: "set (slice_from i xs) \<subseteq> set xs"
  by (auto simp: slice_from_def dest: in_set_dropD)

lemma start_run_snd:
  "snd (start_run fs inp out ids idx chunk start) =
     (case line_counter (remove_outputs fs out idx start) inp of
        Inl e \<Rightarrow> Inl e
      | Inr n \<Rightarrow>
          if n \<noteq> length ids then Inl AssertionError
          else (case start of
                  None \<Rightarrow>
                    Inr (zip (zip_longest (nat chunk)
                                (readlines (content (remove_outputs fs out idx start) inp)))
                             (zip_longest (nat chunk) ids))
                | Some i \<Rightarrow>
                    if length (readlines (content (remove_outputs fs out idx start) inp)) < nat i
                    then Inl StopIteration
                    else Inr (zip (zip_longest (nat chunk)
                                     (drop (nat i)
                                        (readlines (content (remove_outputs fs out idx start) inp))))
                                  (zip_longest (nat chunk) (slice_from i ids)))))"
  by (simp add: start_run_def Let_def split: sum.splits option.splits)

lemma start_run_work:
  assumes "start_run fs inp out ids idx chunk start = (fs1, Inr work)"
  shows "\<exists>L I. work = zip (zip_longest (nat chunk) L) (zip_longest (nat chunk) I) \<and>
               set L \<subseteq> set (readlines (content fs1 inp)) \<and> set I \<subseteq> set ids"
proof -
  from assms fst_start_run [of fs inp out ids idx chunk start]
  have fs1: "remove_outputs fs out idx start = fs1" by simp
  from assms have w: "snd (start_run fs inp out ids idx chunk start) = Inr work" by simp
  show ?thesis
  proof (cases start)
    case None
    from w have "work = zip (zip_longest (nat chunk) (readlines (content fs1 inp)))
                            (zip_longest (nat chunk) ids)"
      using fs1 by (simp add: start_run_snd None split: sum.splits if_splits)
    then show ?thesis by blast
  next
    case (Some i)
    from w have "work = zip (zip_longest (nat chunk) (drop (nat i) (readlines (content fs1 inp))))
                            (zip_longest (nat chunk) (slice_from i ids))"
      using fs1 by (simp add: start_run_snd Some split: sum.splits if_splits)
    moreover have "set (drop (nat i) (readlines (content fs1 inp))) \<subseteq> set (readlines (content fs1 inp))"
      by (rule set_drop_subset)
    moreover have "set (slice_from i ids) \<subseteq> set ids" by (rule set_slice_from)
    ultimately show ?thesis by blast
  qed
qed

lemma start_run_members:
  assumes "start_run fs inp out ids idx chunk start = (fs1, Inr work)" and "c \<in> set work"
  shows "set (not_None (fst c)) \<subseteq> set (readlines (content fs1 inp)) \<and>
         set (not_None (snd c)) \<subseteq> set ids"
proof -
  from start_run_work [OF assms(1)] obtain L I where
    work: "work = zip (zip_longest (nat chunk) L) (zip_longest (nat chunk) I)" and
    L: "set L \<subseteq> set (readlines (content fs1 inp))" and I: "set I \<subseteq> set ids" by blast
  obtain ls "is" where c: "c = (ls, is)" by (cases c)
  from assms(2) work c have "(ls, is) \<in> set (zip (zip_longest (nat chunk) L) (zip_longest (nat chunk) I))"
    by simp
  then have ls: "ls \<in> set (zip_longest (nat chunk) L)"
    and "is": "is \<in> set (zip_longest (nat chunk) I)"
    by (rule set_zip_leftD, rule set_zip_rightD)
  from chunk_members [OF ls] chunk_members [OF "is"] L I c show ?thesis by auto
qed

lemma content_remove_outputs_frame:
  "q \<noteq> out \<Longrightarrow> Some q \<noteq> idx \<Longrightarrow> content (remove_outputs fs out idx start) q = content fs q"
  by (simp add: content_def remove_outputs_frame)

subsection \<open>Alignment of the two output files\<close>

text \<open>
  \<open>process_large_file\<close> does not compare what the per-line function returns: it writes the
  first string to the output corpus and the second to the identifier file as they are. When,
  for every input line and identifier of the run, the two strings returned have the same
  number of line feeds, and the identifier file is a file of its own, the text the run appends
  to the output corpus and the text it appends to the identifier file have the same number of
  lines, whether the run ends normally or by an exception. So the two files can only differ in
  length through the per-line function.
\<close>

lemma aligned_transform_keeps_line_counts:
  assumes "p \<noteq> output_file" and "input_file \<noteq> output_file" and "input_file \<noteq> p"
    and "aligned_on function_name (readlines (content fs input_file)) input_file_ids"
  shows "\<exists>a b.
           content (fst (process_large_file fs input_file output_file input_file_ids (Some p)
                           function_name chunk_size start_index)) output_file
             = content (remove_outputs fs output_file (Some p) start_index) output_file @ a \<and>
           content (fst (process_large_file fs input_file output_file input_file_ids (Some p)
                           function_name chunk_size start_index)) p
             = content (remove_outputs fs output_file (Some p) start_index) p @ b \<and>
           length (readlines a) = length (readlines b)"
proof -
  let ?fs1 = "remove_outputs fs output_file (Some p) start_index"
  let ?plf = "process_large_file fs input_file output_file input_file_ids (Some p)
                function_name chunk_size start_index"
  obtain fs1' r where sr0:
    "start_run fs input_file output_file input_file_ids (Some p) chunk_size start_index = (fs1', r)"
    by (cases "start_run fs input_file output_file input_file_ids (Some p) chunk_size start_index")
  with fst_start_run [of fs input_file output_file input_file_ids "Some p" chunk_size start_index]
  have fs1': "fs1' = ?fs1" by simp
  show ?thesis
  proof (cases r)
    case (Inl e)
    with sr0 fs1' have "?plf = (?fs1, Some e)"
      by (simp add: process_large_file_def)
    then have "content (fst ?plf) output_file = content ?fs1 output_file @ [] \<and>
               content (fst ?plf) p = content ?fs1 p @ [] \<and>
               length (readlines []) = length (readlines [])" by simp
    then show ?thesis by blast
  next
    case (Inr work)
    with sr0 fs1' have srw:
      "start_run fs input_file output_file input_file_ids (Some p) chunk_size start_index
         = (?fs1, Inr work)" by simp
    then have plf: "?plf = process_chunks function_name output_file (Some p) work ?fs1"
      by (simp add: process_large_file_def)
    have inp: "content ?fs1 input_file = content fs input_file"
      using assms(2,3) by (simp add: content_remove_outputs_frame)
    have "\<forall>c\<in>set work. \<forall>l\<in>set (not_None (fst c)). \<forall>i\<in>set (not_None (snd c)). \<forall>r.
           function_name l i = Inr r \<longrightarrow> count_list (fst r) NL = count_list (snd r) NL"
    proof (intro ballI allI impI)
      fix c l i r
      assume c: "c \<in> set work" and l: "l \<in> set (not_None (fst c))"
        and i: "i \<in> set (not_None (snd c))" and r: "function_name l i = Inr r"
      from start_run_members [OF srw c] l i inp
      have "l \<in> set (readlines (content fs input_file))" "i \<in> set input_file_ids" by auto
      with assms(4) have "case function_name l i of
                            Inl e \<Rightarrow> True
                          | Inr r \<Rightarrow> count_list (fst r) NL = count_list (snd r) NL"
        by (simp add: aligned_on_def list_all_iff)
      with r show "count_list (fst r) NL = count_list (snd r) NL" by simp
    qed
    from process_chunks_aligned [OF assms(1) this, of ?fs1] obtain a b where
      a: "content (fst (process_chunks function_name output_file (Some p) work ?fs1)) output_file
            = content ?fs1 output_file @ a" and
      b: "content (fst (process_chunks function_name output_file (Some p) work ?fs1)) p
            = content ?fs1 p @ b" and
      la: "a = [] \<or> last a = NL" and lb: "b = [] \<or> last b = NL" and
      ab: "count_list a NL = count_list b NL" by blast
    have len: "length (readlines a) = length (readlines b)"
      using la lb ab by (simp add: length_readlines_terminated)
    have "content (fst ?plf) output_file = content ?fs1 output_file @ a \<and>
          content (fst ?plf) p = content ?fs1 p @ b \<and>
          length (readlines a) = length (readlines b)"
      using a b len by (simp only: plf)
    then show ?thesis by blast
  qed
qed

text \<open>A run over three lines in chunks of two, with a per-line function that returns two
  lines of text and two identifiers for every input line.\<close>

lemma aligned_transform_example:
  "''out_ids.txt'' \<noteq> ''out.txt'' \<and> ''docs.txt'' \<noteq> ''out.txt'' \<and> ''docs.txt'' \<noteq> ''out_ids.txt'' \<and>
   aligned_on two_lines (readlines (content example_fs ''docs.txt'')) [''a'', ''b'', ''c''] \<and>
   length (readlines (content (fst (process_large_file example_fs ''docs.txt'' ''out.txt''
             [''a'', ''b'', ''c''] (Some ''out_ids.txt'') two_lines 2 None)) ''out.txt'')) =
   length (readlines (content (fst (process_large_file example_fs ''docs.txt'' ''out.txt''
             [''a'', ''b'', ''c''] (Some ''out_ids.txt'') two_lines 2 None)) ''out_ids.txt''))"
proof -
  have h1: "''out_ids.txt'' \<noteq> ''out.txt''" by simp
  have h2: "''docs.txt'' \<noteq> ''out.txt''" by simp
  have h3: "''docs.txt'' \<noteq> ''out_ids.txt''" by simp
  have h4: "aligned_on two_lines (readlines (content example_fs ''docs.txt'')) [''a'', ''b'', ''c'']"
    by code_simp
  have e1: "content (remove_outputs example_fs ''out.txt'' (Some ''out_ids.txt'') None) ''out.txt'' = []"
    by code_simp
  have e2: "content (remove_outputs example_fs ''out.txt'' (Some ''out_ids.txt'') None) ''out_ids.txt'' = []"
    by code_simp
  from aligned_transform_keeps_line_counts [OF h1 h2 h3 h4, of 2 None]
  show ?thesis using h4 by (auto simp: e1 e2)
qed

text \<open>
  Claim C1 says that in every run with an identifier file the output corpus and the identifier
  file get the same number of lines, also when the per-line function returns no line or several
  lines for an input line. \<open>parse_line\<close>, the per-line function of the parsing stage, leaves
  the blank sentences out of the text it returns (line 26 of \<open>parse.py\<close>) and keeps their
  identifiers (line 27). The code run at a splitter that returns, for every line, its text and
  a second sentence of one line feed: the line \<open>first\<close> with identifier \<open>a\<close> gives one
  line of text and the two identifiers \<open>a_0\<close> and \<open>a_1\<close>; the run over three lines ends without
  an exception and leaves three lines in the output corpus and six in the identifier file; and
  \<open>construct_doc_level_corpus\<close>, which asserts that the two files have as many lines as each
  other, fails on them.
\<close>

theorem parse_line_misaligned_output:
  "parse_line blank_tail_split ''first\<newline>'' ''a'' = ([], Inr (''first'', ''a_0\<newline>a_1'')) \<and>
   snd (parse_document example_fs blank_tail_split ''docs.txt'' [''a'', ''b'', ''c'']
          ''out.txt'' (Some ''out_ids.txt'')) = None \<and>
   fst (parse_document example_fs blank_tail_split ''docs.txt'' [''a'', ''b'', ''c'']
          ''out.txt'' (Some ''out_ids.txt'')) ''out.txt'' = Some ''first\<newline>second\<newline>third\<newline>'' \<and>
   fst (parse_document example_fs blank_tail_split ''docs.txt'' [''a'', ''b'', ''c'']
          ''out.txt'' (Some ''out_ids.txt'')) ''out_ids.txt''
     = Some ''a_0\<newline>a_1\<newline>b_0\<newline>b_1\<newline>c_0\<newline>c_1\<newline>'' \<and>
   line_counter (fst (parse_document example_fs blank_tail_split ''docs.txt'' [''a'', ''b'', ''c'']
                        ''out.txt'' (Some ''out_ids.txt''))) ''out.txt'' = Inr 3 \<and>
   line_counter (fst (parse_document example_fs blank_tail_split ''docs.txt'' [''a'', ''b'', ''c'']
                        ''out.txt'' (Some ''out_ids.txt''))) ''out_ids.txt'' = Inr 6 \<and>
   construct_doc_level_corpus
     (fst (parse_document example_fs blank_tail_split ''docs.txt'' [''a'', ''b'', ''c'']
             ''out.txt'' (Some ''out_ids.txt''))) ''out.txt'' ''out_ids.txt'' = Inl AssertionError"
  by code_simp

subsection \<open>An exception in the per-line function\<close>

text \<open>
  Claim C4 says that a failure on one item is logged with the item's identifier, that the item
  gives no output line, and that the other items are still processed and written. The code
  run at a splitter that raises on the second of three lines: \<open>parse_line\<close> prints the message
  and the identifier, then reads the unset local \<open>sent\<close>, and the \<open>UnboundLocalError\<close> leaves
  \<open>process_large_file\<close>, which has no handler. With chunks of one line the first line is
  written and the third never processed; with \<open>PARSE_CHUNK_SIZE\<close> all three lines are in the
  chunk that fails, and nothing is written.
\<close>

theorem parse_line_exception_aborts_run:
  "parse_line failing_split ''second\<newline>'' ''b'' = ([''boom'', ''Exception in line: b''], Inl UnboundLocalError) \<and>
   snd (process_large_file example_fs ''docs.txt'' ''out.txt'' [''a'', ''b'', ''c'']
          (Some ''out_ids.txt'') (parse_line_result failing_split) 1 None) = Some UnboundLocalError \<and>
   fst (process_large_file example_fs ''docs.txt'' ''out.txt'' [''a'', ''b'', ''c'']
          (Some ''out_ids.txt'') (parse_line_result failing_split) 1 None) ''out.txt'' = Some ''first\<newline>'' \<and>
   fst (process_large_file example_fs ''docs.txt'' ''out.txt'' [''a'', ''b'', ''c'']
          (Some ''out_ids.txt'') (parse_line_result failing_split) 1 None) ''out_ids.txt'' = Some ''a_0\<newline>'' \<and>
   snd (parse_document example_fs failing_split ''docs.txt'' [''a'', ''b'', ''c''] ''out.txt''
          (Some ''out_ids.txt'')) = Some UnboundLocalError \<and>
   fst (parse_document example_fs failing_split ''docs.txt'' [''a'', ''b'', ''c''] ''out.txt''
          (Some ''out_ids.txt'')) ''out.txt'' = None"
  by code_simp

subsection \<open>A corpus and an identifier list of different lengths\<close>

lemma remove_outputs_eq:
  "remove_outputs fs out idx start =
     (case start of
        Some i \<Rightarrow> fs
      | None \<Rightarrow> if fs out = None then fs
                else (case idx of None \<Rightarrow> fs(out := None) | Some p \<Rightarrow> fs(out := None, p := None)))"
  by (auto simp: remove_outputs_def os_remove_def fun_eq_iff split: option.splits)

lemma start_run_pair:
  "start_run fs inp out ids idx chunk start =
     (remove_outputs fs out idx start, snd (start_run fs inp out ids idx chunk start))"
  using fst_start_run [of fs inp out ids idx chunk start]
  by (cases "start_run fs inp out ids idx chunk start") simp

text \<open>
  Claim C3, amended. When the input corpus exists, is neither of the two output files, and its
  number of lines differs from the number of identifiers, \<open>process_large_file\<close> ends with an
  \<open>AssertionError\<close> and writes nothing. With a \<open>start_index\<close> it leaves every file as it was.
  Without one the old output has been removed by then: the output corpus if it existed, and
  with it the identifier file when one was named.
\<close>

theorem count_mismatch_aborts:
  assumes "fs input_file = Some corpus"
    and "length (readlines corpus) \<noteq> length input_file_ids"
    and "input_file \<noteq> output_file" and "Some input_file \<noteq> output_index_file"
  shows "process_large_file fs input_file output_file input_file_ids output_index_file
           function_name chunk_size start_index =
         ((case start_index of
             Some i \<Rightarrow> fs
           | None \<Rightarrow> if fs output_file = None then fs
                     else (case output_index_file of
                             None \<Rightarrow> fs(output_file := None)
                           | Some p \<Rightarrow> fs(output_file := None, p := None))),
          Some AssertionError)"
proof -
  let ?fs1 = "remove_outputs fs output_file output_index_file start_index"
  have "?fs1 input_file = Some corpus"
    using assms(1,3,4) by (simp add: remove_outputs_frame)
  then have "line_counter ?fs1 input_file = Inr (length (readlines corpus))"
    by (simp add: line_counter_def)
  with assms(2) have "snd (start_run fs input_file output_file input_file_ids output_index_file
                             chunk_size start_index) = Inl AssertionError"
    by (simp add: start_run_snd)
  then have "process_large_file fs input_file output_file input_file_ids output_index_file
               function_name chunk_size start_index = (?fs1, Some AssertionError)"
    by (subst process_large_file_def, subst start_run_pair) simp
  then show ?thesis by (simp only: remove_outputs_eq)
qed

theorem count_mismatch_aborts_witness:
  "example_fs ''docs.txt'' = Some ''first\<newline>second\<newline>third\<newline>'' \<and>
   length (readlines ''first\<newline>second\<newline>third\<newline>'') \<noteq> length [''a''] \<and>
   ''docs.txt'' \<noteq> ''out.txt'' \<and> Some ''docs.txt'' \<noteq> Some ''out_ids.txt'' \<and>
   process_large_file example_fs ''docs.txt'' ''out.txt'' [''a''] (Some ''out_ids.txt'') keep_line 2 (Some 1)
     = (example_fs, Some AssertionError) \<and>
   process_large_file example_fs ''docs.txt'' ''out.txt'' [''a''] (Some ''out_ids.txt'') keep_line 2 None
     = (example_fs(''out.txt'' := None, ''out_ids.txt'' := None), Some AssertionError)"
proof -
  have h1: "example_fs ''docs.txt'' = Some ''first\<newline>second\<newline>third\<newline>''"
    by (simp add: example_fs_def)
  have h2: "length (readlines ''first\<newline>second\<newline>third\<newline>'') \<noteq> length [''a'']"
    by code_simp
  have h3: "''docs.txt'' \<noteq> ''out.txt''" by simp
  have h4: "Some ''docs.txt'' \<noteq> Some ''out_ids.txt''" by simp
  have e: "example_fs ''out.txt'' \<noteq> None" by (simp add: example_fs_def)
  note inst = count_mismatch_aborts [where fs = example_fs and input_file = "''docs.txt''"
      and corpus = "''first\<newline>second\<newline>third\<newline>''" and input_file_ids = "[''a'']"
      and output_file = "''out.txt''" and output_index_file = "Some ''out_ids.txt''"
      and function_name = keep_line and chunk_size = 2, OF h1 h2 h3 h4]
  from inst [of "Some 1"] inst [of None]
  show ?thesis using h1 h2 e by simp
qed

text \<open>
  Claim C3 as stated fails on a fresh run: the output files of an earlier run are removed
  before the assertion is evaluated.
\<close>

theorem fresh_mismatch_removes_outputs_counterexample:
  "snd (process_large_file example_fs ''docs.txt'' ''out.txt'' [''a''] (Some ''out_ids.txt'')
          keep_line 2 None) = Some AssertionError \<and>
   example_fs ''out.txt'' = Some ''old\<newline>'' \<and>
   fst (process_large_file example_fs ''docs.txt'' ''out.txt'' [''a''] (Some ''out_ids.txt'')
          keep_line 2 None) ''out.txt'' = None \<and>
   example_fs ''out_ids.txt'' = Some ''old_0\<newline>'' \<and>
   fst (process_large_file example_fs ''docs.txt'' ''out.txt'' [''a''] (Some ''out_ids.txt'')
          keep_line 2 None) ''out_ids.txt'' = None"
  by code_simp

subsection \<open>Runs without an identifier file\<close>

lemma process_large_file_frame:
  "q \<noteq> out \<Longrightarrow> Some q \<noteq> idx \<Longrightarrow> fst (process_large_file fs inp out ids idx f chunk start) q = fs q"
  by (subst process_large_file_def, subst start_run_pair)
     (simp add: process_chunks_frame remove_outputs_frame split: sum.splits)

lemma process_chunks_without_ids:
  "p \<noteq> out \<Longrightarrow> fs' out = fs out \<Longrightarrow>
     fst (process_chunks f out (Some p) work fs') out = fst (process_chunks f out None work fs) out \<and>
     snd (process_chunks f out (Some p) work fs') = snd (process_chunks f out None work fs)"
proof (induction work arbitrary: fs fs')
  case Nil
  then show ?case by simp
next
  case (Cons c work)
  obtain ls "is" where c: "c = (ls, is)" by (cases c)
  show ?case
  proof (cases "map_transform f (zip (not_None ls) (not_None is))")
    case (Inl e)
    with c Cons.prems show ?thesis by simp
  next
    case (Inr outs)
    let ?ol = "join [NL] (map fst outs) @ [NL]"
    let ?oi = "join [NL] (map snd outs) @ [NL]"
    have "append_file (append_file fs' out ?ol) p ?oi out = append_file fs out ?ol out"
      using Cons.prems by (simp add: append_file_def content_def)
    from Cons.IH [where fs' = "append_file (append_file fs' out ?ol) p ?oi"
        and fs = "append_file fs out ?ol", OF Cons.prems(1) this] c Inr
    show ?thesis by (simp add: Let_def)
  qed
qed

lemma start_run_snd_without_ids:
  assumes "p \<noteq> out" and "p \<noteq> inp" and "inp \<noteq> out"
  shows "snd (start_run fs inp out ids (Some p) chunk start) = snd (start_run fs inp out ids None chunk start)"
proof -
  have "remove_outputs fs out (Some p) start inp = remove_outputs fs out None start inp"
    using assms by (simp add: remove_outputs_frame)
  then have "content (remove_outputs fs out (Some p) start) inp
               = content (remove_outputs fs out None start) inp"
    and "line_counter (remove_outputs fs out (Some p) start) inp
               = line_counter (remove_outputs fs out None start) inp"
    by (simp_all add: line_counter_def content_def)
  then show ?thesis
    by (simp only: start_run_snd)
qed

lemma process_large_file_without_ids:
  assumes "p \<noteq> out" and "p \<noteq> inp" and "inp \<noteq> out"
  shows "fst (process_large_file fs inp out ids (Some p) f chunk start) out
           = fst (process_large_file fs inp out ids None f chunk start) out \<and>
         snd (process_large_file fs inp out ids (Some p) f chunk start)
           = snd (process_large_file fs inp out ids None f chunk start)"
proof -
  let ?fs1 = "remove_outputs fs out (Some p) start"
  let ?fs0 = "remove_outputs fs out None start"
  have same: "?fs1 out = ?fs0 out"
    using assms(1) by (auto simp: remove_outputs_eq split: option.splits)
  show ?thesis
  proof (cases "snd (start_run fs inp out ids None chunk start)")
    case (Inl e)
    with start_run_snd_without_ids [OF assms, of fs ids chunk start] same show ?thesis
      by (subst (1 2 3 4) process_large_file_def, subst (1 2 3 4) start_run_pair) simp
  next
    case (Inr work)
    with start_run_snd_without_ids [OF assms, of fs ids chunk start]
      process_chunks_without_ids [where p = p and out = out and fs' = "?fs1" and fs = "?fs0"
        and f = f and work = work, OF assms(1) same]
    show ?thesis
      by (subst (1 2 3 4) process_large_file_def, subst (1 2 3 4) start_run_pair) simp
  qed
qed

text \<open>
  Claim C10. Called with \<open>output_index_file=None\<close>, \<open>process_large_file\<close> leaves every file
  other than the output corpus as it was, whether it removes, writes or fails; the output corpus
  and the way the run ends are those of the same run with an identifier file \<open>p\<close> that is
  neither the input nor the output corpus. \<open>clean_file\<close> is such a call, and changes no file
  but its output.
\<close>

theorem no_identifier_file_mode:
  assumes "p \<noteq> output_file" and "p \<noteq> input_file" and "input_file \<noteq> output_file"
  shows "(\<forall>q. q \<noteq> output_file \<longrightarrow>
            fst (process_large_file fs input_file output_file input_file_ids None function_name
                   chunk_size start_index) q = fs q) \<and>
         fst (process_large_file fs input_file output_file input_file_ids None function_name
                chunk_size start_index) output_file
           = fst (process_large_file fs input_file output_file input_file_ids (Some p) function_name
                    chunk_size start_index) output_file \<and>
         snd (process_large_file fs input_file output_file input_file_ids None function_name
                chunk_size start_index)
           = snd (process_large_file fs input_file output_file input_file_ids (Some p) function_name
                    chunk_size start_index) \<and>
         (\<forall>q. q \<noteq> output_path \<longrightarrow>
            fst (clean_file fs rx a_text_cleaner input_path output_path) q = fs q)"
proof (intro conjI allI impI)
  fix q assume "q \<noteq> output_file"
  then show "fst (process_large_file fs input_file output_file input_file_ids None function_name
                   chunk_size start_index) q = fs q"
    by (simp add: process_large_file_frame)
next
  show "fst (process_large_file fs input_file output_file input_file_ids None function_name
                chunk_size start_index) output_file
           = fst (process_large_file fs input_file output_file input_file_ids (Some p) function_name
                    chunk_size start_index) output_file"
    using process_large_file_without_ids [OF assms] by simp
next
  show "snd (process_large_file fs input_file output_file input_file_ids None function_name
                chunk_size start_index)
           = snd (process_large_file fs input_file output_file input_file_ids (Some p) function_name
                    chunk_size start_index)"
    using process_large_file_without_ids [OF assms] by simp
next
  fix q assume "q \<noteq> output_path"
  then show "fst (clean_file fs rx a_text_cleaner input_path output_path) q = fs q"
    by (simp add: clean_file_def process_large_file_frame split: sum.splits)
qed

theorem no_identifier_file_mode_witness:
  "''out_ids.txt'' \<noteq> ''out.txt'' \<and> ''out_ids.txt'' \<noteq> ''docs.txt'' \<and> ''docs.txt'' \<noteq> ''out.txt'' \<and>
   fst (process_large_file example_fs ''docs.txt'' ''out.txt'' [''a'', ''b'', ''c''] None keep_line 2 None)
     ''out_ids.txt'' = Some ''old_0\<newline>'' \<and>
   fst (process_large_file example_fs ''docs.txt'' ''out.txt'' [''a'', ''b'', ''c''] None keep_line 2 None)
     ''out.txt''
     = fst (process_large_file example_fs ''docs.txt'' ''out.txt'' [''a'', ''b'', ''c'']
              (Some ''out_ids.txt'') keep_line 2 None) ''out.txt'' \<and>
   snd (process_large_file example_fs ''docs.txt'' ''out.txt'' [''a'', ''b'', ''c''] None keep_line 2 None)
     = snd (process_large_file example_fs ''docs.txt'' ''out.txt'' [''a'', ''b'', ''c'']
              (Some ''out_ids.txt'') keep_line 2 None) \<and>
   fst (clean_file example_fs ascii_regex first_pass_cleaner ''docs.txt'' ''out.txt'') ''out_ids.txt''
     = Some ''old_0\<newline>''"
proof -
  have h1: "''out_ids.txt'' \<noteq> ''out.txt''" by simp
  have h2: "''out_ids.txt'' \<noteq> ''docs.txt''" by simp
  have h3: "''docs.txt'' \<noteq> ''out.txt''" by simp
  have e: "example_fs ''out_ids.txt'' = Some ''old_0\<newline>''" by (simp add: example_fs_def)
  from no_identifier_file_mode [where p = "''out_ids.txt''" and output_file = "''out.txt''"
      and input_file = "''docs.txt''" and fs = example_fs and input_file_ids = "[''a'', ''b'', ''c'']"
      and function_name = keep_line and chunk_size = 2 and start_index = None
      and output_path = "''out.txt''" and rx = ascii_regex and a_text_cleaner = first_pass_cleaner
      and input_path = "''docs.txt''", OF h1 h2 h3]
  show ?thesis using e by simp
qed

subsection \<open>Resuming a run\<close>





subsection \<open>\<open>construct_doc_level_corpus\<close>\<close>

lemma split_sep_not_Nil: "split_sep c s \<noteq> []"
  by (induction s) (auto split: list.splits)

lemma hd_split_sep: "hd (split_sep c s) = takeWhile (\<lambda>x. x \<noteq> c) s"
  using split_sep_not_Nil [of c]
  by (induction s) (auto split: list.splits)

lemma first_seen_snoc:
  "first_seen (xs @ [k]) = (if k \<in> set xs then first_seen xs else first_seen xs @ [k])"
  by (simp add: first_seen_def)

lemma set_first_seen [simp]: "set (first_seen xs) = set xs"
  by (simp add: first_seen_def)

lemma distinct_first_seen [simp]: "distinct (first_seen xs)"
  by (simp add: first_seen_def)

lemma dict_add_keys:
  "map fst (dict_add d k v) = (if k \<in> set (map fst d) then map fst d else map fst d @ [k])"
  by (induction d k v rule: dict_add.induct) auto

lemma dict_add_lookup:
  "map_of (dict_add d k v) k' =
     (if k' = k then Some ((case map_of d k of None \<Rightarrow> [] | Some x \<Rightarrow> x) @ v) else map_of d k')"
  by (induction d k v rule: dict_add.induct) auto

lemma values_by_keys:
  "distinct (map fst d) \<Longrightarrow> map snd d = map (\<lambda>k. the (map_of d k)) (map fst d)"
proof (induction d)
  case Nil
  then show ?case by simp
next
  case (Cons a d)
  obtain k v where a: "a = (k, v)" by (cases a)
  from Cons.prems a have nk: "k \<notin> fst ` set d" and dd: "distinct (map fst d)" by auto
  have "map (\<lambda>k'. the (map_of (a # d) k')) (map fst d) = map (\<lambda>k'. the (map_of d k')) (map fst d)"
  proof (rule map_cong [OF refl])
    fix x assume "x \<in> set (map fst d)"
    with nk have "x \<noteq> k" by auto
    then show "the (map_of (a # d) x) = the (map_of d x)" using a by simp
  qed
  with Cons.IH [OF dd] a show ?case by simp
qed

lemma filter_key_absent: "k \<notin> fst ` set items \<Longrightarrow> filter (\<lambda>(i, s). i = k) items = []"
  by (induction items) auto

lemma id_doc_dict_invariant:
  "map fst (foldl (\<lambda>d (id, s). dict_add d id (SP # s)) [] items) = first_seen (map fst items) \<and>
   (\<forall>k. map_of (foldl (\<lambda>d (id, s). dict_add d id (SP # s)) [] items) k =
          (if k \<in> fst ` set items
           then Some (concat (map (\<lambda>s. SP # s) (map snd (filter (\<lambda>(i, s). i = k) items))))
           else None))"
proof (induction items rule: rev_induct)
  case Nil
  then show ?case by (simp add: first_seen_def)
next
  case (snoc x items)
  obtain k s where x: "x = (k, s)" by (cases x)
  let ?F = "\<lambda>d (id, s). dict_add d id (SP # s)"
  let ?D = "foldl ?F [] items"
  let ?val = "\<lambda>k its. concat (map (\<lambda>s. SP # s) (map snd (filter (\<lambda>(i, s). i = k) its)))"
  from snoc.IH have keys: "map fst ?D = first_seen (map fst items)" by simp
  from snoc.IH have look: "map_of ?D k' = (if k' \<in> fst ` set items then Some (?val k' items) else None)"
    for k' by simp
  have step: "foldl ?F [] (items @ [x]) = dict_add ?D k (SP # s)"
    using x by simp
  have k1: "map fst (dict_add ?D k (SP # s)) = first_seen (map fst (items @ [x]))"
    using keys x by (simp add: dict_add_keys first_seen_snoc)
  have k2: "map_of (dict_add ?D k (SP # s)) k' =
          (if k' \<in> fst ` set (items @ [x]) then Some (?val k' (items @ [x])) else None)" for k'
  proof (cases "k' = k")
    case True
    have "(case map_of ?D k of None \<Rightarrow> [] | Some v \<Rightarrow> v) = ?val k items"
      by (simp add: look filter_key_absent)
    then have "map_of (dict_add ?D k (SP # s)) k = Some (?val k items @ SP # s)"
      by (simp add: dict_add_lookup)
    moreover have "?val k (items @ [x]) = ?val k items @ SP # s" using x by simp
    moreover have "k \<in> fst ` set (items @ [x])" using x by simp
    ultimately show ?thesis using True by (simp only: if_True)
  next
    case False
    then have "map_of (dict_add ?D k (SP # s)) k' = map_of ?D k'"
      by (simp add: dict_add_lookup)
    moreover have "?val k' (items @ [x]) = ?val k' items" using x False by simp
    moreover have "k' \<in> fst ` set (items @ [x]) \<longleftrightarrow> k' \<in> fst ` set items" using x False by auto
    ultimately show ?thesis by (simp only: look)
  qed
  from k1 k2 show ?case by (simp only: step) blast
qed

lemma concat_spaced: "ss \<noteq> [] \<Longrightarrow> concat (map (\<lambda>s. SP # s) ss) = SP # join [SP] ss"
  by (induction ss rule: induct_list012) auto

lemma filter_zip_map_fst:
  "map snd (filter (\<lambda>(i, s). i = d) (zip (map f xs) ys)) =
   map snd (filter (\<lambda>(i, s). f i = d) (zip xs ys))"
  by (induction xs arbitrary: ys) (auto simp: zip_Cons1 split: list.splits)

text \<open>
  Claim C2, amended. For a sentence corpus and a sentence identifier file of the same number
  of lines, the document identifiers returned are the parts of the sentence identifiers before
  the first underscore, each once, in the order of first appearance; the text of a document
  is one space followed by its sentences, in the order of the stream, joined by single spaces;
  the third component is the number of documents.
\<close>

theorem doc_level_corpus:
  assumes "file_to_list fs sent_corpus_file = Inr sent_corpus"
    and "file_to_list fs sent_id_file = Inr sent_IDs"
    and "length sent_IDs = length sent_corpus"
  shows "construct_doc_level_corpus fs sent_corpus_file sent_id_file =
           Inr (map (\<lambda>d. SP # join [SP]
                         (map snd (filter (\<lambda>(i, s). takeWhile (\<lambda>c. c \<noteq> CHR ''_'') i = d)
                                     (zip sent_IDs sent_corpus))))
                  (first_seen (map (takeWhile (\<lambda>c. c \<noteq> CHR ''_'')) sent_IDs)),
                first_seen (map (takeWhile (\<lambda>c. c \<noteq> CHR ''_'')) sent_IDs),
                length (first_seen (map (takeWhile (\<lambda>c. c \<noteq> CHR ''_'')) sent_IDs)))"
proof -
  let ?doc = "takeWhile (\<lambda>c. c \<noteq> CHR ''_'')"
  let ?items = "zip (map ?doc sent_IDs) sent_corpus"
  let ?D = "foldl (\<lambda>d (id, s). dict_add d id (SP # s)) [] ?items"
  let ?docs = "first_seen (map ?doc sent_IDs)"
  have fst_items: "map fst ?items = map ?doc sent_IDs"
    using assms(3) by simp
  from id_doc_dict_invariant [of ?items] fst_items
  have keys: "map fst ?D = ?docs"
    and look: "\<And>k. map_of ?D k =
          (if k \<in> fst ` set ?items
           then Some (concat (map (\<lambda>s. SP # s) (map snd (filter (\<lambda>(i, s). i = k) ?items))))
           else None)"
    by simp_all
  have dist: "distinct (map fst ?D)" by (simp only: keys distinct_first_seen)
  have vals: "map snd ?D =
      map (\<lambda>d. SP # join [SP] (map snd (filter (\<lambda>(i, s). ?doc i = d) (zip sent_IDs sent_corpus)))) ?docs"
  proof -
    have "map snd ?D = map (\<lambda>k. the (map_of ?D k)) ?docs"
      using values_by_keys [OF dist] by (simp only: keys)
    also have "\<dots> = map (\<lambda>d. SP # join [SP]
                    (map snd (filter (\<lambda>(i, s). ?doc i = d) (zip sent_IDs sent_corpus)))) ?docs"
    proof (rule map_cong [OF refl])
      fix d assume "d \<in> set ?docs"
      then have d: "d \<in> fst ` set ?items" using fst_items
        by (metis set_first_seen set_map)
      then have ne: "map snd (filter (\<lambda>(i, s). i = d) ?items) \<noteq> []"
        by (auto simp: filter_empty_conv)
      from d have "the (map_of ?D d) = concat (map (\<lambda>s. SP # s) (map snd (filter (\<lambda>(i, s). i = d) ?items)))"
        by (simp only: look if_True option.sel)
      also have "\<dots> = SP # join [SP] (map snd (filter (\<lambda>(i, s). i = d) ?items))"
        by (rule concat_spaced [OF ne])
      also have "map snd (filter (\<lambda>(i, s). i = d) ?items) =
                 map snd (filter (\<lambda>(i, s). ?doc i = d) (zip sent_IDs sent_corpus))"
        by (rule filter_zip_map_fst)
      finally show "the (map_of ?D d) =
          SP # join [SP] (map snd (filter (\<lambda>(i, s). ?doc i = d) (zip sent_IDs sent_corpus)))" .
    qed
    finally show ?thesis .
  qed
  have "construct_doc_level_corpus fs sent_corpus_file sent_id_file =
          Inr (map snd ?D, map fst ?D, length (map snd ?D))"
    using assms by (simp add: construct_doc_level_corpus_def Let_def hd_split_sep)
  then show ?thesis by (simp only: vals keys length_map)
qed

text \<open>The example of the specification: the documents are \<open>" a b"\<close> and \<open>" c"\<close>.\<close>

theorem doc_level_corpus_witness:
  "file_to_list sentence_fs ''sents.txt'' = Inr [''a'', ''b'', ''c''] \<and>
   file_to_list sentence_fs ''sent_ids.txt'' = Inr [''1_0'', ''1_1'', ''2_0''] \<and>
   length [''1_0'', ''1_1'', ''2_0''] = length [''a'', ''b'', ''c''] \<and>
   construct_doc_level_corpus sentence_fs ''sents.txt'' ''sent_ids.txt'' =
     Inr ([[SP] @ ''a b'', [SP] @ ''c''], [''1'', ''2''], 2)"
proof -
  have h1: "file_to_list sentence_fs ''sents.txt'' = Inr [''a'', ''b'', ''c'']" by code_simp
  have h2: "file_to_list sentence_fs ''sent_ids.txt'' = Inr [''1_0'', ''1_1'', ''2_0'']" by code_simp
  have h3: "length [''1_0'', ''1_1'', ''2_0''] = length [''a'', ''b'', ''c'']" by simp
  from doc_level_corpus [OF h1 h2 h3] h1 h2 show ?thesis
    by (simp add: first_seen_def)
qed

text \<open>
  Claim C2 as stated fails on its own example: every sentence is appended as a space and the
  sentence, so each document text begins with a space.
\<close>

theorem doc_level_corpus_leading_space_counterexample:
  "construct_doc_level_corpus sentence_fs ''sents.txt'' ''sent_ids.txt''
     = Inr ([[SP] @ ''a b'', [SP] @ ''c''], [''1'', ''2''], 2) \<and>
   construct_doc_level_corpus sentence_fs ''sents.txt'' ''sent_ids.txt''
     \<noteq> Inr ([''a b'', ''c''], [''1'', ''2''], 2)"
  by code_simp

subsection \<open>\<open>calculate_df\<close>\<close>

lemma df_incr_words:
  "distinct ws \<Longrightarrow>
     foldl df_incr m ws w =
       (if w \<in> set ws then Some ((case m w of None \<Rightarrow> 0 | Some n \<Rightarrow> n) + 1) else m w)"
  by (induction ws arbitrary: m) (auto simp: df_incr_def)

text \<open>The order in which the words of one document are visited does not matter.\<close>

lemma df_incr_order:
  assumes "distinct ws" and "distinct ws'" and "set ws = set ws'"
  shows "foldl df_incr m ws = foldl df_incr m ws'"
  using assms by (intro ext) (simp add: df_incr_words)

lemma calculate_df_from:
  "foldl (\<lambda>df_dict doc. foldl df_incr df_dict (remdups (str_split doc))) m corpus w =
     (if length (filter (\<lambda>doc. w \<in> set (str_split doc)) corpus) = 0 then m w
      else Some ((case m w of None \<Rightarrow> 0 | Some n \<Rightarrow> n)
                 + length (filter (\<lambda>doc. w \<in> set (str_split doc)) corpus)))"
  by (induction corpus arbitrary: m) (auto simp: df_incr_words)

text \<open>
  Claim C6. For every corpus and every word \<open>w\<close>, the table of \<open>calculate_df\<close> maps \<open>w\<close> to the
  number of documents that have \<open>w\<close> among their whitespace-separated words, however often \<open>w\<close>
  occurs in one of them; a word of no document has no entry, and the keys of the table are
  exactly the words that occur in the corpus.
\<close>

theorem document_frequency:
  "calculate_df corpus w =
     (if length (filter (\<lambda>doc. w \<in> set (str_split doc)) corpus) = 0 then None
      else Some (length (filter (\<lambda>doc. w \<in> set (str_split doc)) corpus))) \<and>
   dom (calculate_df corpus) = (\<Union>doc\<in>set corpus. set (str_split doc))"
proof
  show w: "calculate_df corpus w =
     (if length (filter (\<lambda>doc. w \<in> set (str_split doc)) corpus) = 0 then None
      else Some (length (filter (\<lambda>doc. w \<in> set (str_split doc)) corpus)))" for w
    by (simp add: calculate_df_def calculate_df_from)
  show "dom (calculate_df corpus) = (\<Union>doc\<in>set corpus. set (str_split doc))"
    by (auto simp: dom_def w filter_empty_conv)
qed

theorem document_frequency_witness:
  "calculate_df [''a b a'', ''b c''] ''a'' = Some 1 \<and>
   calculate_df [''a b a'', ''b c''] ''b'' = Some 2 \<and>
   calculate_df [''a b a'', ''b c''] ''d'' = None \<and>
   dom (calculate_df [''a b a'', ''b c'']) = {''a'', ''b'', ''c''}"
proof -
  have a: "str_split ''a b a'' = [''a'', ''b'', ''a'']" by code_simp
  have b: "str_split ''b c'' = [''b'', ''c'']" by code_simp
  from document_frequency [of "[''a b a'', ''b c'']" "''a''"]
       document_frequency [of "[''a b a'', ''b c'']" "''b''"]
       document_frequency [of "[''a b a'', ''b c'']" "''d''"]
  show ?thesis by (auto simp: a b)
qed

subsection \<open>\<open>score_tf\<close>\<close>

lemma sum_counts_distinct:
  "distinct ws \<Longrightarrow> sum_list (map (count_list ts) ws) = length (filter (\<lambda>t. t \<in> set ws) ts)"
proof (induction ts)
  case Nil
  then show ?case by (induction ws) auto
next
  case (Cons t ts)
  have step: "sum_list (map (count_list (t # ts)) ws) =
        sum_list (map (count_list ts) ws) + (if t \<in> set ws then 1 else 0)"
    using Cons.prems by (induction ws) auto
  have r: "length (filter (\<lambda>t. t \<in> set ws) (t # ts)) =
        length (filter (\<lambda>t. t \<in> set ws) ts) + (if t \<in> set ws then 1 else 0)"
    by simp
  show ?case by (simp only: step r Cons.IH [OF Cons.prems])
qed

text \<open>
  Claim C7. There is one score record per document, in the order of the documents, carrying
  the document identifier and one score per category, in the order of the dictionary. The
  score of a category is the sum, over the words of the category, of the number of times the
  word occurs among the words of the document; when the category lists no word twice this is
  the number of words of the document that belong to the category.
\<close>

theorem score_tf_counts:
  assumes "length document_ids = length documents"
    and "i < length documents" and "j < length expanded_words"
  shows "length (score_tf documents document_ids expanded_words) = length documents \<and>
         fst (score_tf documents document_ids expanded_words ! i) = document_ids ! i \<and>
         map fst (snd (score_tf documents document_ids expanded_words ! i)) = map fst expanded_words \<and>
         snd (snd (score_tf documents document_ids expanded_words ! i) ! j) =
           sum_list (map (count_list (str_split (documents ! i))) (snd (expanded_words ! j))) \<and>
         (distinct (snd (expanded_words ! j)) \<longrightarrow>
            snd (snd (score_tf documents document_ids expanded_words ! i) ! j) =
              length (filter (\<lambda>t. t \<in> set (snd (expanded_words ! j))) (str_split (documents ! i))))"
proof -
  have rec: "score_tf documents document_ids expanded_words ! i =
          (document_ids ! i,
           map (\<lambda>(category, ws).
                  (category, sum_list (map (\<lambda>w. count_list (str_split (documents ! i)) w) ws)))
             expanded_words)"
    using assms(1,2) by (simp add: score_tf_def)
  have j: "snd (snd (score_tf documents document_ids expanded_words ! i) ! j) =
           sum_list (map (count_list (str_split (documents ! i))) (snd (expanded_words ! j)))"
    using assms(3) by (simp add: rec case_prod_beta)
  have "map fst (snd (score_tf documents document_ids expanded_words ! i)) = map fst expanded_words"
    by (simp add: rec case_prod_beta comp_def)
  moreover have "length (score_tf documents document_ids expanded_words) = length documents"
    using assms(1) by (simp add: score_tf_def)
  ultimately show ?thesis using rec j by (simp add: sum_counts_distinct)
qed

text \<open>The example of the specification: the document \<open>motivated motivated sale\<close> scores 2 for
  \<open>Urgency\<close>.\<close>

theorem score_tf_counts_witness:
  "length [''d1''] = length [''motivated motivated sale''] \<and>
   (0 :: nat) < length [''motivated motivated sale''] \<and>
   (0 :: nat) < length [(''Urgency'', [''motivated''])] \<and>
   score_tf [''motivated motivated sale''] [''d1''] [(''Urgency'', [''motivated''])]
     = [(''d1'', [(''Urgency'', 2)])]"
proof -
  have h1: "length [''d1''] = length [''motivated motivated sale'']" by simp
  have h2: "(0 :: nat) < length [''motivated motivated sale'']" by simp
  have h3: "(0 :: nat) < length [(''Urgency'', [''motivated''])]" by simp
  have t: "str_split ''motivated motivated sale'' = [''motivated'', ''motivated'', ''sale'']"
    by code_simp
  from score_tf_counts [OF h1 h2 h3]
  have "length (score_tf [''motivated motivated sale''] [''d1''] [(''Urgency'', [''motivated''])]) = 1"
    and "fst (score_tf [''motivated motivated sale''] [''d1''] [(''Urgency'', [''motivated''])] ! 0) = ''d1''"
    and "map fst (snd (score_tf [''motivated motivated sale''] [''d1''] [(''Urgency'', [''motivated''])] ! 0))
           = [''Urgency'']"
    and "snd (snd (score_tf [''motivated motivated sale''] [''d1''] [(''Urgency'', [''motivated''])] ! 0) ! 0) = 2"
    by (simp_all add: t)
  then show ?thesis
    by (cases "score_tf [''motivated motivated sale''] [''d1''] [(''Urgency'', [''motivated''])]")
       (auto simp: length_Suc_conv map_eq_Cons_conv)
qed

subsection \<open>\<open>TextCleaner.clean\<close>\<close>

lemma no_double_space_Cons:
  "no_double_space (c # s) = ((s = [] \<or> \<not> (isspace c \<and> isspace (hd s))) \<and> no_double_space s)"
  by (cases s) auto

lemma no_double_space_append:
  "no_double_space (xs @ ys) \<Longrightarrow> no_double_space xs \<and> no_double_space ys"
  by (induction xs) (auto simp: no_double_space_Cons hd_append)

lemma strip_by_infix: "\<exists>a b. s = a @ strip_by P s @ b"
proof -
  let ?u = "dropWhile P s"
  have e: "takeWhile P (rev ?u) @ dropWhile P (rev ?u) = rev ?u"
    by (rule takeWhile_dropWhile_id)
  have "?u = rev (rev ?u)" by (simp only: rev_rev_ident)
  also have "\<dots> = rev (takeWhile P (rev ?u) @ dropWhile P (rev ?u))" by (simp only: e)
  also have "\<dots> = strip_by P s @ rev (takeWhile P (rev ?u))"
    by (simp only: rev_append strip_by_def)
  finally have u: "?u = strip_by P s @ rev (takeWhile P (rev ?u))" .
  have "s = takeWhile P s @ ?u" by (simp only: takeWhile_dropWhile_id)
  with u have "s = takeWhile P s @ strip_by P s @ rev (takeWhile P (rev ?u))" by (simp only:)
  then show ?thesis by blast
qed

lemma strip_by_no_double_space: "no_double_space s \<Longrightarrow> no_double_space (strip_by P s)"
proof -
  assume s: "no_double_space s"
  obtain a b where "s = a @ strip_by P s @ b" using strip_by_infix by blast
  with s have "no_double_space (a @ strip_by P s @ b)" by simp
  then show ?thesis by (blast dest: no_double_space_append)
qed

lemma strip_by_ends:
  "strip_by P s = [] \<or> (\<not> P (hd (strip_by P s)) \<and> \<not> P (last (strip_by P s)))"
proof (cases "strip_by P s = []")
  case True
  then show ?thesis by simp
next
  case False
  let ?u = "dropWhile P s"
  let ?v = "dropWhile P (rev ?u)"
  from False have v: "?v \<noteq> []" by (simp add: strip_by_def)
  have u: "?u \<noteq> []"
  proof
    assume "?u = []"
    then have "?v = []" by (simp only: rev.simps dropWhile.simps)
    with v show False by (rule notE)
  qed
  have "last (strip_by P s) = hd ?v" using v by (simp add: strip_by_def last_rev)
  moreover have "\<not> P (hd ?v)" using v by (rule hd_dropWhile)
  moreover have "hd (strip_by P s) = last ?v" using v by (simp add: strip_by_def hd_rev)
  moreover have "last ?v = last (rev ?u)"
  proof -
    have "last (takeWhile P (rev ?u) @ ?v) = last ?v" using v by (rule last_appendR)
    then show ?thesis by (simp only: takeWhile_dropWhile_id)
  qed
  moreover have "last (rev ?u) = hd ?u" using u by (simp add: last_rev)
  moreover have "\<not> P (hd ?u)" using u by (rule hd_dropWhile)
  ultimately show ?thesis by simp
qed

lemma sub_spaces_Nil_iff [simp]: "sub_spaces s = [] \<longleftrightarrow> s = []"
  by (cases s) auto

lemma hd_sub_spaces: "s \<noteq> [] \<Longrightarrow> \<not> isspace (hd s) \<Longrightarrow> hd (sub_spaces s) = hd s"
  by (cases s) auto

lemma sub_spaces_no_double_space: "no_double_space (sub_spaces s)"
proof (induction s rule: sub_spaces.induct)
  case 1
  then show ?case by simp
next
  case (2 c cs)
  show ?case
  proof (cases "isspace c")
    case True
    let ?r = "dropWhile isspace cs"
    have "?r = [] \<or> \<not> isspace (hd (sub_spaces ?r))"
    proof (cases "?r = []")
      case True
      then show ?thesis by simp
    next
      case False
      then have "\<not> isspace (hd ?r)" by (rule hd_dropWhile)
      with False show ?thesis by (simp add: hd_sub_spaces)
    qed
    with True "2.IH"(1) show ?thesis by (auto simp: no_double_space_Cons)
  next
    case False
    with "2.IH"(2) show ?thesis by (simp add: no_double_space_Cons)
  qed
qed

lemma remove_extra_whitespace_tidy: "tidy (remove_extra_whitespace s)"
  unfolding tidy_def remove_extra_whitespace_def strip_def
  using strip_by_ends [of isspace "sub_spaces s"]
    strip_by_no_double_space [OF sub_spaces_no_double_space, of isspace s]
  by blast

text \<open>\<^term>\<open>no_double_space\<close> by positions.\<close>

lemma no_double_space_nth:
  "no_double_space s \<longleftrightarrow> (\<forall>i. Suc i < length s \<longrightarrow> \<not> (isspace (s ! i) \<and> isspace (s ! Suc i)))"
proof (induction s)
  case Nil
  then show ?case by simp
next
  case (Cons c s)
  have "(\<forall>i. Suc i < length (c # s) \<longrightarrow> \<not> (isspace ((c # s) ! i) \<and> isspace ((c # s) ! Suc i)))
        \<longleftrightarrow> ((s = [] \<or> \<not> (isspace c \<and> isspace (hd s))) \<and>
            (\<forall>i. Suc i < length s \<longrightarrow> \<not> (isspace (s ! i) \<and> isspace (s ! Suc i))))"
    (is "?L \<longleftrightarrow> ?H \<and> ?T")
  proof
    assume l: ?L
    have ?H
    proof (cases s)
      case Nil
      then show ?thesis by simp
    next
      case (Cons d ds)
      with l [rule_format, of 0] show ?thesis by simp
    qed
    moreover have ?T
    proof (intro allI impI)
      fix i assume "Suc i < length s"
      with l [rule_format, of "Suc i"] show "\<not> (isspace (s ! i) \<and> isspace (s ! Suc i))" by simp
    qed
    ultimately show "?H \<and> ?T" by (rule conjI)
  next
    assume r: "?H \<and> ?T"
    show ?L
    proof (intro allI impI)
      fix i assume i: "Suc i < length (c # s)"
      show "\<not> (isspace ((c # s) ! i) \<and> isspace ((c # s) ! Suc i))"
      proof (cases i)
        case 0
        with i have "s \<noteq> []" by auto
        with r 0 show ?thesis by (simp add: hd_conv_nth)
      next
        case (Suc j)
        with i have "Suc j < length s" by simp
        with r Suc show ?thesis by simp
      qed
    qed
  qed
  with Cons.IH show ?case by (simp only: no_double_space_Cons)
qed

lemma split_acc_words:
  "\<forall>c\<in>set cur. \<not> isspace c \<Longrightarrow> \<forall>w\<in>set (split_acc cur s). word_like w"
proof (induction s arbitrary: cur)
  case Nil
  then show ?case by (simp add: word_like_def)
next
  case (Cons c cs)
  have empty: "\<forall>w\<in>set (split_acc [] cs). word_like w" by (rule Cons.IH) simp
  show ?case
  proof (cases "isspace c")
    case True
    with empty Cons.prems show ?thesis by (simp add: word_like_def)
  next
    case False
    with Cons.prems have "\<forall>d\<in>set (cur @ [c]). \<not> isspace d" by simp
    then have "\<forall>w\<in>set (split_acc (cur @ [c]) cs). word_like w" by (rule Cons.IH)
    with False show ?thesis by simp
  qed
qed

lemma str_split_words: "\<forall>w\<in>set (str_split s). word_like w"
  unfolding str_split_def by (rule split_acc_words) simp

lemma no_double_space_word:
  "\<forall>c\<in>set w. \<not> isspace c \<Longrightarrow> no_double_space (w @ s) = no_double_space s"
  by (induction w) (auto simp: no_double_space_Cons)

lemma join_words:
  "\<forall>w\<in>set ws. word_like w \<Longrightarrow>
   (join [SP] ws = [] \<longleftrightarrow> ws = []) \<and>
   (ws \<noteq> [] \<longrightarrow> hd (join [SP] ws) = hd (hd ws) \<and> last (join [SP] ws) = last (last ws)) \<and>
   no_double_space (join [SP] ws)"
proof (induction ws rule: induct_list012)
  case 1
  then show ?case by simp
next
  case (2 x)
  then show ?case using no_double_space_word [of x "[]"] by (simp add: word_like_def)
next
  case (3 x y zs)
  let ?r = "join [SP] (y # zs)"
  from "3.prems" have x: "word_like x" and rest: "\<forall>w\<in>set (y # zs). word_like w" by simp_all
  from "3.IH"(2) [OF rest] have r: "?r \<noteq> []" "hd ?r = hd y" "last ?r = last (last (y # zs))"
    "no_double_space ?r" by simp_all
  from rest have "\<not> isspace (hd y)" by (cases y) (auto simp: word_like_def)
  with r have "no_double_space (SP # ?r)" by (simp add: no_double_space_Cons)
  with x have "no_double_space (x @ SP # ?r)" by (simp add: no_double_space_word word_like_def)
  moreover from x have "hd (x @ SP # ?r) = hd x" by (simp add: word_like_def)
  moreover from r have "last (x @ SP # ?r) = last (last (y # zs))" by simp
  ultimately show ?case by simp
qed

lemma join_words_tidy:
  assumes "\<forall>w\<in>set ws. word_like w"
  shows "tidy (join [SP] ws)"
proof (cases "ws = []")
  case True
  then show ?thesis by (simp add: tidy_def)
next
  case False
  then have "hd ws \<in> set ws" "last ws \<in> set ws" by simp_all
  with assms have "word_like (hd ws)" "word_like (last ws)" by blast+
  then have "\<not> isspace (hd (hd ws))" "\<not> isspace (last (last ws))"
    by (simp_all add: word_like_def)
  with join_words [OF assms] False show ?thesis by (simp add: tidy_def)
qed

lemma remove_stopwords_tidy: "tidy (remove_stopwords self s)"
  unfolding remove_stopwords_def using str_split_words [of s] by (intro join_words_tidy) simp

lemma remove_single_tokens_tidy: "tidy (remove_single_tokens s)"
  unfolding remove_single_tokens_def using str_split_words [of s] by (intro join_words_tidy) simp

text \<open>
  Claim C9. For every configuration of the cleaner, every regular expression engine and every
  input string, the string that \<open>clean\<close> returns neither begins nor ends with a whitespace
  character, and no two neighbouring characters of it are both whitespace: the whitespace is
  collapsed and stripped whatever the options are, and the two optional steps after it return
  the words of \<open>split()\<close> joined by single spaces.
\<close>

theorem clean_whitespace_normalised: "tidy (clean rx self corpus)"
  unfolding clean_def Let_def
  by (simp only: remove_extra_whitespace_tidy remove_stopwords_tidy remove_single_tokens_tidy
      if_split [where P = tidy] simp_thms if_cancel)

text \<open>The cleaner with every option off, on a string with leading, trailing and repeated
  whitespace (spaces, a tabulator and a line feed); and the cleaner of the last pass.\<close>

theorem clean_whitespace_normalised_witness:
  "tidy (clean ascii_regex no_op_cleaner [SP, SP, CHR ''a'', CHR 0x09, NL, CHR ''b'', SP]) \<and>
   clean ascii_regex no_op_cleaner [SP, SP, CHR ''a'', CHR 0x09, NL, CHR ''b'', SP] = ''a b'' \<and>
   tidy (clean ascii_regex final_pass_cleaner '' The  End of 2 days!! '') \<and>
   clean ascii_regex final_pass_cleaner '' The  End of 2 days!! '' = ''end days''"
proof -
  have "clean ascii_regex no_op_cleaner [SP, SP, CHR ''a'', CHR 0x09, NL, CHR ''b'', SP] = ''a b''"
    by code_simp
  moreover have "clean ascii_regex final_pass_cleaner '' The  End of 2 days!! '' = ''end days''"
    by code_simp
  ultimately show ?thesis
    using clean_whitespace_normalised [of ascii_regex no_op_cleaner
        "[SP, SP, CHR ''a'', CHR 0x09, NL, CHR ''b'', SP]"]
      clean_whitespace_normalised [of ascii_regex final_pass_cleaner "'' The  End of 2 days!! ''"]
    by (simp only: simp_thms)
qed

end
